theory Spec2Isabelle
  imports Main
begin

section \<open>Values and the object store\<close>

text \<open>
  The merge of \<^verbatim>\<open>src/index.ts\<close> works on JavaScript values. Primitive values are
  compared by content, objects by reference, so an object value is an address into a
  store of objects. The store is a list: the address of an object is its position, and
  a new object is appended at the end.

  An object is an array, a plain object or anything else (a date, a regular expression,
  a class instance). The properties of a plain object are kept in the order in which
  \<^verbatim>\<open>Object.keys\<close> lists them.
\<close>

type_synonym addr = nat

datatype val =
    Undefined
  | Null
  | Num int
  | Str string
  | Bool bool
  | Fn nat
  | Ref addr

datatype obj =
    Arr "val list"
  | Plain "(string \<times> val) list"
  | Opaque nat

text \<open>
  The state of one call of \<^verbatim>\<open>deepMerge\<close>: the store and the two tables
  \<^verbatim>\<open>cloneMap\<close> and \<^verbatim>\<open>pairMap\<close> (a \<^verbatim>\<open>WeakMap\<close> of \<^verbatim>\<open>WeakMap\<close>s).
\<close>

record state =
  heap :: "obj list"
  cloneMap :: "val \<rightharpoonup> val"
  pairMap :: "val \<rightharpoonup> (val \<rightharpoonup> val)"

record DeepMergeOptions =
  mergeArrays :: "bool option"

definition obj_at :: "obj list \<Rightarrow> val \<Rightarrow> obj option" where
  "obj_at h v = (case v of Ref a \<Rightarrow> (if a < length h then Some (h ! a) else None) | _ \<Rightarrow> None)"

text \<open>
  Modelled from the spec: \<^verbatim>\<open>isObject\<close> of the package \<^verbatim>\<open>@se-oss/object\<close> is not part of
  the sources. The spec describes it as the predicate "is this a structured value eligible
  for recursion", true of sequences, maps and opaque objects and false of scalars, the
  absent value and function-like leaves.
\<close>

definition isObject :: "val \<Rightarrow> bool" where
  "isObject v = (case v of Ref a \<Rightarrow> True | _ \<Rightarrow> False)"

text \<open>
  Modelled from the spec: \<^verbatim>\<open>isPlainObject\<close> of the package \<^verbatim>\<open>@se-oss/object\<close> is not
  part of the sources. The spec describes it as the predicate "is this specifically a plain
  keyed Map", which tells a map from an opaque object among the structured values.
\<close>

definition isPlainObject :: "obj list \<Rightarrow> val \<Rightarrow> bool" where
  "isPlainObject h v = (case obj_at h v of Some (Plain ps) \<Rightarrow> True | _ \<Rightarrow> False)"

definition isArray :: "obj list \<Rightarrow> val \<Rightarrow> bool" where
  "isArray h v = (case obj_at h v of Some (Arr xs) \<Rightarrow> True | _ \<Rightarrow> False)"

definition array_length :: "obj list \<Rightarrow> val \<Rightarrow> nat" where
  "array_length h v = (case obj_at h v of Some (Arr xs) \<Rightarrow> length xs | _ \<Rightarrow> 0)"

definition get_index :: "obj list \<Rightarrow> val \<Rightarrow> nat \<Rightarrow> val" where
  "get_index h v i =
     (case obj_at h v of
        Some (Arr xs) \<Rightarrow> (if i < length xs then xs ! i else Undefined)
      | _ \<Rightarrow> Undefined)"

definition object_keys :: "obj list \<Rightarrow> val \<Rightarrow> string list" where
  "object_keys h v = (case obj_at h v of Some (Plain ps) \<Rightarrow> map fst ps | _ \<Rightarrow> [])"

definition hasOwn :: "obj list \<Rightarrow> val \<Rightarrow> string \<Rightarrow> bool" where
  "hasOwn h v k = (case obj_at h v of Some (Plain ps) \<Rightarrow> k \<in> set (map fst ps) | _ \<Rightarrow> False)"

definition get_prop :: "obj list \<Rightarrow> val \<Rightarrow> string \<Rightarrow> val" where
  "get_prop h v k =
     (case obj_at h v of
        Some (Plain ps) \<Rightarrow> (case map_of ps k of Some x \<Rightarrow> x | None \<Rightarrow> Undefined)
      | _ \<Rightarrow> Undefined)"

subsection \<open>Property order\<close>

text \<open>
  JavaScript lists the own keys of an object with the array indices first, in ascending
  numeric order, and the other string keys after them in the order of their creation.
  An array index is the canonical decimal form of an integer below \<open>2^32 - 1\<close>.
\<close>

definition digit_val :: "char \<Rightarrow> int option" where
  "digit_val c =
     (let n = (of_char c :: int) in if 48 \<le> n \<and> n \<le> 57 then Some (n - 48) else None)"

fun dec_val :: "int \<Rightarrow> string \<Rightarrow> int option" where
  "dec_val acc [] = Some acc"
| "dec_val acc (c # cs) =
     (case digit_val c of None \<Rightarrow> None | Some d \<Rightarrow> dec_val (10 * acc + d) cs)"

definition array_index :: "string \<Rightarrow> int option" where
  "array_index k =
     (case k of
        [] \<Rightarrow> None
      | c # cs \<Rightarrow>
          if c = CHR ''0'' \<and> cs \<noteq> [] then None
          else (case dec_val 0 k of
                  Some n \<Rightarrow> (if n < 4294967295 then Some n else None)
                | None \<Rightarrow> None))"

fun insert_prop :: "string \<Rightarrow> val \<Rightarrow> (string \<times> val) list \<Rightarrow> (string \<times> val) list" where
  "insert_prop k v [] = [(k, v)]"
| "insert_prop k v (p # ps) =
     (case array_index k of
        None \<Rightarrow> p # insert_prop k v ps
      | Some n \<Rightarrow>
          (case array_index (fst p) of
             Some m \<Rightarrow> (if m < n then p # insert_prop k v ps else (k, v) # p # ps)
           | None \<Rightarrow> (k, v) # p # ps))"

definition update_prop :: "string \<Rightarrow> val \<Rightarrow> (string \<times> val) list \<Rightarrow> (string \<times> val) list" where
  "update_prop k v ps = map (\<lambda>p. if fst p = k then (k, v) else p) ps"

definition define_prop :: "string \<Rightarrow> val \<Rightarrow> (string \<times> val) list \<Rightarrow> (string \<times> val) list" where
  "define_prop k v ps = (if k \<in> set (map fst ps) then update_prop k v ps else insert_prop k v ps)"

subsection \<open>Writing to the store\<close>

definition new_object :: "obj \<Rightarrow> state \<Rightarrow> val \<times> state" where
  "new_object ob s = (Ref (length (heap s)), s\<lparr>heap := heap s @ [ob]\<rparr>)"

definition array_push :: "val \<Rightarrow> val \<Rightarrow> state \<Rightarrow> state" where
  "array_push arr v s =
     (case obj_at (heap s) arr of
        Some (Arr xs) \<Rightarrow> (case arr of Ref a \<Rightarrow> s\<lparr>heap := (heap s)[a := Arr (xs @ [v])]\<rparr> | _ \<Rightarrow> s)
      | _ \<Rightarrow> s)"

definition set_prop :: "val \<Rightarrow> string \<Rightarrow> val \<Rightarrow> state \<Rightarrow> state" where
  "set_prop ob k v s =
     (case obj_at (heap s) ob of
        Some (Plain ps) \<Rightarrow>
          (case ob of Ref a \<Rightarrow> s\<lparr>heap := (heap s)[a := Plain (define_prop k v ps)]\<rparr> | _ \<Rightarrow> s)
      | _ \<Rightarrow> s)"

section \<open>The merge\<close>

definition getPair :: "val \<Rightarrow> val \<Rightarrow> state \<Rightarrow> val option" where
  "getPair a b s = (case pairMap s a of None \<Rightarrow> None | Some inner \<Rightarrow> inner b)"

definition setPair :: "val \<Rightarrow> val \<Rightarrow> val \<Rightarrow> state \<Rightarrow> state" where
  "setPair a b v s =
     (let inner = (case pairMap s a of None \<Rightarrow> Map.empty | Some m \<Rightarrow> m)
      in s\<lparr>pairMap := (pairMap s)(a \<mapsto> inner(b \<mapsto> v))\<rparr>)"

type_synonym merger = "val \<Rightarrow> val \<Rightarrow> state \<Rightarrow> (val \<times> state) option"

text \<open>
  The loop \<^verbatim>\<open>for (i = 0, l = src.length; i < l; i++) newArr.push(internalDeepMerge(undefined, src[i]))\<close>,
  over the indices \<open>0, \<dots>, l - 1\<close>; \<open>rec\<close> is the recursive call.
\<close>

fun push_clones :: "merger \<Rightarrow> val \<Rightarrow> val \<Rightarrow> nat list \<Rightarrow> state \<Rightarrow> state option" where
  "push_clones rec src newArr [] s = Some s"
| "push_clones rec src newArr (i # is) s =
     (case rec Undefined (get_index (heap s) src i) s of
        None \<Rightarrow> None
      | Some (v, s') \<Rightarrow> push_clones rec src newArr is (array_push newArr v s'))"

text \<open>The loop \<^verbatim>\<open>result[k] = internalDeepMerge(undefined, obj2[k])\<close> over the keys of \<^verbatim>\<open>obj2\<close>.\<close>

fun assign_clones :: "merger \<Rightarrow> val \<Rightarrow> val \<Rightarrow> string list \<Rightarrow> state \<Rightarrow> state option" where
  "assign_clones rec src result [] s = Some s"
| "assign_clones rec src result (k # ks) s =
     (case rec Undefined (get_prop (heap s) src k) s of
        None \<Rightarrow> None
      | Some (v, s') \<Rightarrow> assign_clones rec src result ks (set_prop result k v s'))"

text \<open>The loop \<^verbatim>\<open>output[k] = obj1[k]\<close> over the keys of \<^verbatim>\<open>obj1\<close>.\<close>

fun copy_keys :: "val \<Rightarrow> val \<Rightarrow> string list \<Rightarrow> state \<Rightarrow> state" where
  "copy_keys obj1 output [] s = s"
| "copy_keys obj1 output (k # ks) s =
     copy_keys obj1 output ks (set_prop output k (get_prop (heap s) obj1 k) s)"

text \<open>The loop \<^verbatim>\<open>if (output[k] === obj1) output[k] = output\<close> over the keys of \<^verbatim>\<open>obj1\<close>.\<close>

fun fix_self :: "val \<Rightarrow> val \<Rightarrow> string list \<Rightarrow> state \<Rightarrow> state" where
  "fix_self obj1 output [] s = s"
| "fix_self obj1 output (k # ks) s =
     fix_self obj1 output ks
       (if get_prop (heap s) output k = obj1 then set_prop output k output s else s)"

text \<open>The loop over the keys of \<^verbatim>\<open>obj2\<close> that merges or clones each value into \<^verbatim>\<open>output\<close>.\<close>

definition merge_key :: "merger \<Rightarrow> val \<Rightarrow> val \<Rightarrow> string \<Rightarrow> state \<Rightarrow> (val \<times> state) option" where
  "merge_key rec obj1 obj2 key s =
     (if hasOwn (heap s) obj1 key \<and> isObject (get_prop (heap s) obj1 key)
         \<and> isObject (get_prop (heap s) obj2 key)
      then rec (get_prop (heap s) obj1 key) (get_prop (heap s) obj2 key) s
      else rec Undefined (get_prop (heap s) obj2 key) s)"

fun merge_keys :: "merger \<Rightarrow> val \<Rightarrow> val \<Rightarrow> val \<Rightarrow> string list \<Rightarrow> state \<Rightarrow> state option" where
  "merge_keys rec obj1 obj2 output [] s = Some s"
| "merge_keys rec obj1 obj2 output (key # ks) s =
     (case merge_key rec obj1 obj2 key s of
        None \<Rightarrow> None
      | Some (v, s') \<Rightarrow> merge_keys rec obj1 obj2 output ks (set_prop output key v s'))"

text \<open>The branches of \<^verbatim>\<open>internalDeepMerge\<close> that allocate, in the order of the source.\<close>

definition clone_array :: "merger \<Rightarrow> val \<Rightarrow> state \<Rightarrow> (val \<times> state) option" where
  "clone_array rec obj2 s =
     (let (newArr, s1) = new_object (Arr []) s;
          s2 = s1\<lparr>cloneMap := (cloneMap s1)(obj2 \<mapsto> newArr)\<rparr>
      in case push_clones rec obj2 newArr [0..<array_length (heap s2) obj2] s2 of
           None \<Rightarrow> None
         | Some s3 \<Rightarrow> Some (newArr, s3))"

definition clone_object :: "merger \<Rightarrow> val \<Rightarrow> state \<Rightarrow> (val \<times> state) option" where
  "clone_object rec obj2 s =
     (let (result, s1) = new_object (Plain []) s;
          s2 = s1\<lparr>cloneMap := (cloneMap s1)(obj2 \<mapsto> result)\<rparr>
      in case assign_clones rec obj2 result (object_keys (heap s2) obj2) s2 of
           None \<Rightarrow> None
         | Some s3 \<Rightarrow> Some (result, s3))"

definition replace_by_array :: "merger \<Rightarrow> val \<Rightarrow> val \<Rightarrow> state \<Rightarrow> (val \<times> state) option" where
  "replace_by_array rec obj1 obj2 s =
     (let (newArr, s1) = new_object (Arr []) s;
          s2 = setPair obj1 obj2 newArr s1
      in case push_clones rec obj2 newArr [0..<array_length (heap s2) obj2] s2 of
           None \<Rightarrow> None
         | Some s3 \<Rightarrow> Some (newArr, s3))"

definition merge_arrays :: "merger \<Rightarrow> bool \<Rightarrow> val \<Rightarrow> val \<Rightarrow> state \<Rightarrow> (val \<times> state) option" where
  "merge_arrays rec mergeArr obj1 obj2 s =
     (let (newArr, s1) = new_object (Arr []) s;
          s2 = setPair obj1 obj2 newArr s1
      in if mergeArr then
           (case push_clones rec obj1 newArr [0..<array_length (heap s2) obj1] s2 of
              None \<Rightarrow> None
            | Some s3 \<Rightarrow>
                (case push_clones rec obj2 newArr [0..<array_length (heap s3) obj2] s3 of
                   None \<Rightarrow> None
                 | Some s4 \<Rightarrow> Some (newArr, s4)))
         else
           (case push_clones rec obj2 newArr [0..<array_length (heap s2) obj2] s2 of
              None \<Rightarrow> None
            | Some s3 \<Rightarrow> Some (newArr, s3)))"

definition replace_by_object :: "merger \<Rightarrow> val \<Rightarrow> val \<Rightarrow> state \<Rightarrow> (val \<times> state) option" where
  "replace_by_object rec obj1 obj2 s =
     (let (result, s1) = new_object (Plain []) s;
          s2 = setPair obj1 obj2 result s1
      in case assign_clones rec obj2 result (object_keys (heap s2) obj2) s2 of
           None \<Rightarrow> None
         | Some s3 \<Rightarrow> Some (result, s3))"

definition merge_objects :: "merger \<Rightarrow> val \<Rightarrow> val \<Rightarrow> state \<Rightarrow> (val \<times> state) option" where
  "merge_objects rec obj1 obj2 s =
     (let (output, s1) = new_object (Plain []) s;
          keys1 = object_keys (heap s1) obj1;
          s2 = copy_keys obj1 output keys1 s1;
          s3 = setPair obj1 obj2 output s2;
          s4 = fix_self obj1 output keys1 s3;
          keys2 = object_keys (heap s4) obj2
      in case merge_keys rec obj1 obj2 output keys2 s4 of
           None \<Rightarrow> None
         | Some s5 \<Rightarrow> Some (output, s5))"

text \<open>
  \<^verbatim>\<open>internalDeepMerge\<close>. The recursion of the source follows the object graph, which may
  be cyclic, so the first argument bounds the depth of the recursion: \<open>None\<close> means that
  the bound was reached, \<open>Some (v, s)\<close> that the call returned \<open>v\<close> in the state \<open>s\<close>.
  The body of the function is \<open>internalDeepMerge_body\<close>, with \<open>rec\<close> for its recursive calls.

  The comparison \<^verbatim>\<open>obj1 === obj2\<close> is equality of values: the function is called with
  \<^verbatim>\<open>obj1\<close> either \<^verbatim>\<open>undefined\<close> or an object, so the comparison never meets two numbers.
\<close>

definition internalDeepMerge_body :: "merger \<Rightarrow> bool \<Rightarrow> val \<Rightarrow> val \<Rightarrow> state \<Rightarrow> (val \<times> state) option" where
  "internalDeepMerge_body rec mergeArr obj1 obj2 s =
     (if obj1 = obj2 then Some (obj1, s)
      else if \<not> isObject obj2 then Some (obj2, s)
      else if \<not> isObject obj1 then
        (case cloneMap s obj2 of
           Some c \<Rightarrow> Some (c, s)
         | None \<Rightarrow>
             if isArray (heap s) obj2 then clone_array rec obj2 s
             else if isPlainObject (heap s) obj2 then clone_object rec obj2 s
             else Some (obj2, s))
      else
        (case getPair obj1 obj2 s of
           Some existing \<Rightarrow> Some (existing, s)
         | None \<Rightarrow>
             if isArray (heap s) obj2 then
               (if \<not> isArray (heap s) obj1
                then replace_by_array rec obj1 obj2 s
                else merge_arrays rec mergeArr obj1 obj2 s)
             else if isArray (heap s) obj1 \<and> isPlainObject (heap s) obj2
               then replace_by_object rec obj1 obj2 s
             else if \<not> isPlainObject (heap s) obj1 \<or> \<not> isPlainObject (heap s) obj2
               then Some (obj2, s)
             else merge_objects rec obj1 obj2 s))"

primrec internalDeepMerge :: "nat \<Rightarrow> bool \<Rightarrow> val \<Rightarrow> val \<Rightarrow> state \<Rightarrow> (val \<times> state) option" where
  "internalDeepMerge 0 mergeArr obj1 obj2 s = None"
| "internalDeepMerge (Suc n) mergeArr obj1 obj2 s =
     internalDeepMerge_body (internalDeepMerge n mergeArr) mergeArr obj1 obj2 s"

text \<open>
  \<^verbatim>\<open>deepMerge\<close>: the two tables start empty, \<^verbatim>\<open>mergeArrays\<close> defaults to \<^verbatim>\<open>false\<close>, and the
  roots that are not objects are handled before the recursion.
\<close>

definition init_state :: "obj list \<Rightarrow> state" where
  "init_state h = \<lparr>heap = h, cloneMap = Map.empty, pairMap = Map.empty\<rparr>"

definition deepMerge ::
  "nat \<Rightarrow> obj list \<Rightarrow> val \<Rightarrow> val \<Rightarrow> DeepMergeOptions \<Rightarrow> (val \<times> state) option" where
  "deepMerge n h target source options =
     (let mergeArr = (case mergeArrays options of None \<Rightarrow> False | Some b \<Rightarrow> b);
          s = init_state h
      in if \<not> isObject target \<and> \<not> isObject source then Some (new_object (Plain []) s)
         else if \<not> isObject target then internalDeepMerge n mergeArr Undefined source s
         else if \<not> isObject source then internalDeepMerge n mergeArr Undefined target s
         else internalDeepMerge n mergeArr target source s)"

section \<open>Notions used in the proofs\<close>

definition keeps :: "nat \<Rightarrow> state \<Rightarrow> state \<Rightarrow> bool" where
  "keeps N s s' \<longleftrightarrow> length (heap s) \<le> length (heap s') \<and> (\<forall>i<N. heap s' ! i = heap s ! i)"

definition ext :: "state \<Rightarrow> state \<Rightarrow> bool" where
  "ext s s' \<longleftrightarrow> keeps (length (heap s)) s s'"

definition ext_merger :: "merger \<Rightarrow> bool" where
  "ext_merger rec \<longleftrightarrow> (\<forall>a b s v s'. rec a b s = Some (v, s') \<longrightarrow> ext s s')"

text \<open>The state in which \<^verbatim>\<open>merge_objects\<close> enters its last loop.\<close>

definition merge_objects_start :: "val \<Rightarrow> val \<Rightarrow> state \<Rightarrow> state" where
  "merge_objects_start obj1 obj2 s =
     (let out = Ref (length (heap s));
          s1 = s\<lparr>heap := heap s @ [Plain []]\<rparr>;
          keys1 = object_keys (heap s1) obj1
      in fix_self obj1 out keys1 (setPair obj1 obj2 out (copy_keys obj1 out keys1 s1)))"


text \<open>
  The inputs of the test "does not mutate source or target input objects":
  \<^verbatim>\<open>a = { x: { y: 1 }, arr: [1] }\<close> at address 0 and \<^verbatim>\<open>b = { x: { z: 2 }, arr: [2] }\<close> at
  address 3.
\<close>

definition test_no_mutation :: "obj list" where
  "test_no_mutation =
     [Plain [(''x'', Ref 1), (''arr'', Ref 2)], Plain [(''y'', Num 1)], Arr [Num 1],
      Plain [(''x'', Ref 4), (''arr'', Ref 5)], Plain [(''z'', Num 2)], Arr [Num 2]]"

definition default_options :: DeepMergeOptions where
  "default_options = \<lparr>mergeArrays = None\<rparr>"

text \<open>
  A value is valid in a store when it is not a reference or refers to an object of the
  store. A store is closed when every value held by one of its objects is valid in it:
  these are the stores that a JavaScript program can build.
\<close>

definition valid_val :: "obj list \<Rightarrow> val \<Rightarrow> bool" where
  "valid_val h v = (case v of Ref a \<Rightarrow> a < length h | _ \<Rightarrow> True)"



text \<open>
  The given store \<open>h0\<close> is a prefix of the store of the state, unchanged.
\<close>

definition frame :: "obj list \<Rightarrow> state \<Rightarrow> bool" where
  "frame h0 s \<longleftrightarrow> length h0 \<le> length (heap s) \<and> (\<forall>i<length h0. heap s ! i = h0 ! i)"

text \<open>
  The objects of the given store that are not yet in the clone table, and the pairs of
  them that are not yet in the pair table. Their number bounds the depth of the recursion.
\<close>

definition unseen_clones :: "obj list \<Rightarrow> state \<Rightarrow> nat set" where
  "unseen_clones h0 s = {a. a < length h0 \<and> cloneMap s (Ref a) = None}"

definition unseen_pairs :: "obj list \<Rightarrow> state \<Rightarrow> (nat \<times> nat) set" where
  "unseen_pairs h0 s =
     {(a, b). a < length h0 \<and> b < length h0 \<and> getPair (Ref a) (Ref b) s = None}"

definition unseen :: "obj list \<Rightarrow> state \<Rightarrow> nat" where
  "unseen h0 s = card (unseen_clones h0 s) + card (unseen_pairs h0 s)"




text \<open>The order of the keys alone: where a new key goes, and a key that may be there already.\<close>

fun insert_key :: "string \<Rightarrow> string list \<Rightarrow> string list" where
  "insert_key k [] = [k]"
| "insert_key k (x # xs) =
     (case array_index k of
        None \<Rightarrow> x # insert_key k xs
      | Some n \<Rightarrow>
          (case array_index x of
             Some m \<Rightarrow> (if m < n then x # insert_key k xs else k # x # xs)
           | None \<Rightarrow> k # x # xs))"

definition add_key :: "string \<Rightarrow> string list \<Rightarrow> string list" where
  "add_key k ks = (if k \<in> set ks then ks else insert_key k ks)"

text \<open>
  The two tables hold arrays and plain objects only: every object with an entry in
  \<^verbatim>\<open>cloneMap\<close>, and every object that is the source of a pair in \<^verbatim>\<open>pairMap\<close>.
\<close>

definition tables_ok :: "state \<Rightarrow> bool" where
  "tables_ok s \<longleftrightarrow>
     (\<forall>y c. cloneMap s y = Some c \<longrightarrow> isArray (heap s) y \<or> isPlainObject (heap s) y) \<and>
     (\<forall>x y c. getPair x y s = Some c \<longrightarrow> isArray (heap s) y \<or> isPlainObject (heap s) y)"



























text \<open>The values that the merge copies rather than shares: the arrays and the plain objects.\<close>

definition mergeable :: "obj list \<Rightarrow> val \<Rightarrow> bool" where
  "mergeable h x \<longleftrightarrow> isArray h x \<or> isPlainObject h x"

text \<open>
  The clone of a value of the given store \<open>h0\<close> according to the clone table of the state: a
  scalar or an opaque object is its own clone, an array or a plain object has the clone
  that the table records.
\<close>

definition img :: "obj list \<Rightarrow> state \<Rightarrow> val \<Rightarrow> val option" where
  "img h0 s x = (if mergeable h0 x then cloneMap s x else Some x)"

text \<open>
  The object \<open>ob'\<close> is a copy of the object \<open>ob\<close> of the given store: the same kind, the same
  length or keys in the same order, and at each place the clone of the value of \<open>ob\<close>.
\<close>

definition copy_of :: "obj list \<Rightarrow> state \<Rightarrow> obj \<Rightarrow> obj \<Rightarrow> bool" where
  "copy_of h0 s ob ob' =
     (case ob of
        Arr xs \<Rightarrow> (case ob' of Arr zs \<Rightarrow> list_all2 (\<lambda>x z. img h0 s x = Some z) xs zs | _ \<Rightarrow> False)
      | Plain ps \<Rightarrow>
          (case ob' of
             Plain qs \<Rightarrow> map fst qs = map fst ps
               \<and> list_all (\<lambda>k. img h0 s (the (map_of ps k)) = map_of qs k) (map fst ps)
           | _ \<Rightarrow> False)
      | Opaque c \<Rightarrow> False)"

text \<open>
  The clone table during a merge on \<open>h0\<close>: every entry maps an array or a plain object of
  \<open>h0\<close> to a new object, and that object is a copy of it unless the entry is one of those
  in \<open>P\<close>, the objects whose clones are being filled.
\<close>

definition clone_inv :: "obj list \<Rightarrow> val set \<Rightarrow> state \<Rightarrow> bool" where
  "clone_inv h0 P s \<longleftrightarrow>
     frame h0 s \<and>
     (\<forall>y c. cloneMap s y = Some c \<longrightarrow>
        mergeable h0 y \<and>
        (\<exists>p. c = Ref p \<and> length h0 \<le> p \<and> p < length (heap s) \<and>
           (y \<notin> P \<longrightarrow> (\<exists>ob. obj_at h0 y = Some ob \<and> copy_of h0 s ob (heap s ! p)))))"

definition grows :: "state \<Rightarrow> state \<Rightarrow> bool" where
  "grows s s' \<longleftrightarrow>
     length (heap s) \<le> length (heap s') \<and>
     (\<forall>y c. cloneMap s y = Some c \<longrightarrow> cloneMap s' y = Some c) \<and>
     (\<forall>y c. cloneMap s' y = Some c \<longrightarrow>
        cloneMap s y = Some c \<or> (\<exists>p\<ge>length (heap s). c = Ref p))"




section \<open>Elementary facts about the store\<close>

lemma obj_at_Ref [simp]: "obj_at h (Ref a) = (if a < length h then Some (h ! a) else None)"
  by (simp add: obj_at_def)

lemma obj_at_not_object: "\<not> isObject v \<Longrightarrow> obj_at h v = None"
  by (cases v) (simp_all add: obj_at_def isObject_def)

lemma isObject_Ref [simp]: "isObject (Ref a)"
  by (simp add: isObject_def)


lemma new_object_heap [simp]: "heap (snd (new_object ob s)) = heap s @ [ob]"
  and new_object_val [simp]: "fst (new_object ob s) = Ref (length (heap s))"
  and new_object_cloneMap [simp]: "cloneMap (snd (new_object ob s)) = cloneMap s"
  and new_object_pairMap [simp]: "pairMap (snd (new_object ob s)) = pairMap s"
  by (simp_all add: new_object_def)

lemma array_push_length [simp]: "length (heap (array_push a v s)) = length (heap s)"
  and array_push_cloneMap [simp]: "cloneMap (array_push a v s) = cloneMap s"
  and array_push_pairMap [simp]: "pairMap (array_push a v s) = pairMap s"
  by (auto simp: array_push_def obj_at_def split: option.splits obj.splits val.splits)

lemma set_prop_length [simp]: "length (heap (set_prop a k v s)) = length (heap s)"
  and set_prop_cloneMap [simp]: "cloneMap (set_prop a k v s) = cloneMap s"
  and set_prop_pairMap [simp]: "pairMap (set_prop a k v s) = pairMap s"
  by (auto simp: set_prop_def obj_at_def split: option.splits obj.splits val.splits)

lemma array_push_other: "a \<noteq> Ref i \<Longrightarrow> heap (array_push a v s) ! i = heap s ! i"
  by (auto simp: array_push_def obj_at_def split: option.splits obj.splits val.splits)

lemma set_prop_other: "a \<noteq> Ref i \<Longrightarrow> heap (set_prop a k v s) ! i = heap s ! i"
  by (auto simp: set_prop_def obj_at_def split: option.splits obj.splits val.splits)

lemma setPair_heap [simp]: "heap (setPair a b v s) = heap s"
  and setPair_cloneMap [simp]: "cloneMap (setPair a b v s) = cloneMap s"
  by (simp_all add: setPair_def Let_def)


section \<open>The inputs are not written to\<close>

lemma keeps_refl [simp]: "keeps N s s"
  by (simp add: keeps_def)

lemma keeps_trans: "keeps N s s' \<Longrightarrow> keeps N s' s'' \<Longrightarrow> keeps N s s''"
  by (auto simp: keeps_def)

lemma ext_keeps: "ext s s' \<Longrightarrow> N \<le> length (heap s) \<Longrightarrow> keeps N s s'"
  by (auto simp: ext_def keeps_def)

lemma keeps_length: "keeps N s s' \<Longrightarrow> length (heap s) \<le> length (heap s')"
  by (simp add: keeps_def)

lemma keeps_array_push: "\<forall>p. arr = Ref p \<longrightarrow> N \<le> p \<Longrightarrow> keeps N s (array_push arr v s)"
  by (auto simp: keeps_def intro!: array_push_other)

lemma keeps_set_prop: "\<forall>p. ob = Ref p \<longrightarrow> N \<le> p \<Longrightarrow> keeps N s (set_prop ob k v s)"
  by (auto simp: keeps_def intro!: set_prop_other)

lemma keeps_new_object: "N \<le> length (heap s) \<Longrightarrow> keeps N s (snd (new_object ob s))"
  by (auto simp: keeps_def nth_append)

lemma keeps_setPair [simp]: "keeps N s (setPair a b v s')  \<longleftrightarrow> keeps N s s'"
  by (simp add: keeps_def)

lemma keeps_cloneMap_update [simp]: "keeps N s (s'\<lparr>cloneMap := m\<rparr>) \<longleftrightarrow> keeps N s s'"
  by (simp add: keeps_def)

lemma push_clones_keeps:
  assumes "ext_merger rec" and "\<forall>p. newArr = Ref p \<longrightarrow> N \<le> p"
  shows "push_clones rec src newArr is s = Some s' \<Longrightarrow> N \<le> length (heap s) \<Longrightarrow> keeps N s s'"
proof (induction "is" arbitrary: s)
  case Nil
  then show ?case by simp
next
  case (Cons i "is")
  from Cons.prems(1) obtain v s1 where
    r: "rec Undefined (get_index (heap s) src i) s = Some (v, s1)" and
    l: "push_clones rec src newArr is (array_push newArr v s1) = Some s'"
    by (auto split: option.splits)
  from r assms(1) have e: "ext s s1" by (auto simp: ext_merger_def)
  have k1: "keeps N s s1" using e Cons.prems(2) by (rule ext_keeps)
  have k2: "keeps N s1 (array_push newArr v s1)" using assms(2) by (rule keeps_array_push)
  have "N \<le> length (heap (array_push newArr v s1))"
    using Cons.prems(2) keeps_length[OF k1] by simp
  from Cons.IH[OF l this] have "keeps N (array_push newArr v s1) s'" .
  with k1 k2 show ?case by (blast intro: keeps_trans)
qed

lemma assign_clones_keeps:
  assumes "ext_merger rec" and "\<forall>p. result = Ref p \<longrightarrow> N \<le> p"
  shows "assign_clones rec src result ks s = Some s' \<Longrightarrow> N \<le> length (heap s) \<Longrightarrow> keeps N s s'"
proof (induction ks arbitrary: s)
  case Nil
  then show ?case by simp
next
  case (Cons k ks)
  from Cons.prems(1) obtain v s1 where
    r: "rec Undefined (get_prop (heap s) src k) s = Some (v, s1)" and
    l: "assign_clones rec src result ks (set_prop result k v s1) = Some s'"
    by (auto split: option.splits)
  from r assms(1) have e: "ext s s1" by (auto simp: ext_merger_def)
  have k1: "keeps N s s1" using e Cons.prems(2) by (rule ext_keeps)
  have k2: "keeps N s1 (set_prop result k v s1)" using assms(2) by (rule keeps_set_prop)
  have "N \<le> length (heap (set_prop result k v s1))"
    using Cons.prems(2) keeps_length[OF k1] by simp
  from Cons.IH[OF l this] have "keeps N (set_prop result k v s1) s'" .
  with k1 k2 show ?case by (blast intro: keeps_trans)
qed

lemma merge_key_ext: "ext_merger rec \<Longrightarrow> merge_key rec obj1 obj2 key s = Some (v, s') \<Longrightarrow> ext s s'"
  by (auto simp: merge_key_def ext_merger_def split: if_splits)

lemma merge_keys_keeps:
  assumes "ext_merger rec" and "\<forall>p. output = Ref p \<longrightarrow> N \<le> p"
  shows "merge_keys rec obj1 obj2 output ks s = Some s' \<Longrightarrow> N \<le> length (heap s) \<Longrightarrow> keeps N s s'"
proof (induction ks arbitrary: s)
  case Nil
  then show ?case by simp
next
  case (Cons k ks)
  from Cons.prems(1) obtain v s1 where
    r: "merge_key rec obj1 obj2 k s = Some (v, s1)" and
    l: "merge_keys rec obj1 obj2 output ks (set_prop output k v s1) = Some s'"
    by (auto split: option.splits)
  from r assms(1) have e: "ext s s1" by (rule merge_key_ext[rotated])
  have k1: "keeps N s s1" using e Cons.prems(2) by (rule ext_keeps)
  have k2: "keeps N s1 (set_prop output k v s1)" using assms(2) by (rule keeps_set_prop)
  have "N \<le> length (heap (set_prop output k v s1))"
    using Cons.prems(2) keeps_length[OF k1] by simp
  from Cons.IH[OF l this] have "keeps N (set_prop output k v s1) s'" .
  with k1 k2 show ?case by (blast intro: keeps_trans)
qed

lemma copy_keys_keeps:
  "\<forall>p. output = Ref p \<longrightarrow> N \<le> p \<Longrightarrow> keeps N s (copy_keys obj1 output ks s)"
proof (induction ks arbitrary: s)
  case Nil
  then show ?case by simp
next
  case (Cons k ks)
  show ?case
    using keeps_trans[OF keeps_set_prop[OF Cons.prems] Cons.IH[OF Cons.prems]] by simp
qed

lemma fix_self_keeps:
  "\<forall>p. output = Ref p \<longrightarrow> N \<le> p \<Longrightarrow> keeps N s (fix_self obj1 output ks s)"
proof (induction ks arbitrary: s)
  case Nil
  then show ?case by simp
next
  case (Cons k ks)
  show ?case
    using keeps_trans[OF keeps_set_prop[OF Cons.prems] Cons.IH[OF Cons.prems]] Cons.IH[OF Cons.prems]
    by simp
qed

lemma keeps_ext: "keeps (length (heap s)) s s' \<Longrightarrow> ext s s'"
  by (simp add: ext_def)

lemma clone_array_ext:
  assumes "ext_merger rec" and "clone_array rec obj2 s = Some (v, s')"
  shows "ext s s'"
proof -
  define N where "N = length (heap s)"
  define s2 where "s2 = s\<lparr>heap := heap s @ [Arr []], cloneMap := (cloneMap s)(obj2 \<mapsto> Ref N)\<rparr>"
  from assms(2) have l: "push_clones rec obj2 (Ref N) [0..<array_length (heap s2) obj2] s2 = Some s'"
    by (auto simp: clone_array_def new_object_def s2_def N_def split: option.splits)
  have "keeps N s2 s'"
    by (rule push_clones_keeps[OF assms(1) _ l]) (simp_all add: s2_def N_def)
  moreover have "keeps N s s2"
    by (simp add: keeps_def s2_def N_def nth_append)
  ultimately show ?thesis
    unfolding N_def by (blast intro: keeps_trans keeps_ext)
qed

lemma clone_object_ext:
  assumes "ext_merger rec" and "clone_object rec obj2 s = Some (v, s')"
  shows "ext s s'"
proof -
  define N where "N = length (heap s)"
  define s2 where "s2 = s\<lparr>heap := heap s @ [Plain []], cloneMap := (cloneMap s)(obj2 \<mapsto> Ref N)\<rparr>"
  from assms(2) have l: "assign_clones rec obj2 (Ref N) (object_keys (heap s2) obj2) s2 = Some s'"
    by (auto simp: clone_object_def new_object_def s2_def N_def split: option.splits)
  have "keeps N s2 s'"
    by (rule assign_clones_keeps[OF assms(1) _ l]) (simp_all add: s2_def N_def)
  moreover have "keeps N s s2"
    by (simp add: keeps_def s2_def N_def nth_append)
  ultimately show ?thesis
    unfolding N_def by (blast intro: keeps_trans keeps_ext)
qed

lemma replace_by_array_ext:
  assumes "ext_merger rec" and "replace_by_array rec obj1 obj2 s = Some (v, s')"
  shows "ext s s'"
proof -
  define N where "N = length (heap s)"
  define s2 where "s2 = setPair obj1 obj2 (Ref N) (s\<lparr>heap := heap s @ [Arr []]\<rparr>)"
  from assms(2) have l: "push_clones rec obj2 (Ref N) [0..<array_length (heap s2) obj2] s2 = Some s'"
    by (auto simp: replace_by_array_def new_object_def s2_def N_def split: option.splits)
  have "keeps N s2 s'"
    by (rule push_clones_keeps[OF assms(1) _ l]) (simp_all add: s2_def N_def)
  moreover have "keeps N s s2"
    by (simp add: keeps_def s2_def N_def nth_append)
  ultimately show ?thesis
    unfolding N_def by (blast intro: keeps_trans keeps_ext)
qed

lemma merge_arrays_ext:
  assumes "ext_merger rec" and "merge_arrays rec mergeArr obj1 obj2 s = Some (v, s')"
  shows "ext s s'"
proof -
  define N where "N = length (heap s)"
  define s2 where "s2 = setPair obj1 obj2 (Ref N) (s\<lparr>heap := heap s @ [Arr []]\<rparr>)"
  have k0: "keeps N s s2"
    by (simp add: keeps_def s2_def N_def nth_append)
  have n2: "N \<le> length (heap s2)"
    by (simp add: s2_def N_def)
  show ?thesis
  proof (cases mergeArr)
    case True
    with assms(2) obtain s3 where
      l1: "push_clones rec obj1 (Ref N) [0..<array_length (heap s2) obj1] s2 = Some s3" and
      l2: "push_clones rec obj2 (Ref N) [0..<array_length (heap s3) obj2] s3 = Some s'"
      by (auto simp: merge_arrays_def new_object_def s2_def N_def split: option.splits)
    have k1: "keeps N s2 s3"
      by (rule push_clones_keeps[OF assms(1) _ l1 n2]) simp
    have "N \<le> length (heap s3)"
      using n2 keeps_length[OF k1] by simp
    then have "keeps N s3 s'"
      by (rule push_clones_keeps[OF assms(1) _ l2, rotated]) simp
    with k0 k1 show ?thesis
      unfolding N_def by (blast intro: keeps_trans keeps_ext)
  next
    case False
    with assms(2) have
      l: "push_clones rec obj2 (Ref N) [0..<array_length (heap s2) obj2] s2 = Some s'"
      by (auto simp: merge_arrays_def new_object_def s2_def N_def split: option.splits)
    have "keeps N s2 s'"
      by (rule push_clones_keeps[OF assms(1) _ l n2]) simp
    with k0 show ?thesis
      unfolding N_def by (blast intro: keeps_trans keeps_ext)
  qed
qed

lemma replace_by_object_ext:
  assumes "ext_merger rec" and "replace_by_object rec obj1 obj2 s = Some (v, s')"
  shows "ext s s'"
proof -
  define N where "N = length (heap s)"
  define s2 where "s2 = setPair obj1 obj2 (Ref N) (s\<lparr>heap := heap s @ [Plain []]\<rparr>)"
  from assms(2) have l: "assign_clones rec obj2 (Ref N) (object_keys (heap s2) obj2) s2 = Some s'"
    by (auto simp: replace_by_object_def new_object_def s2_def N_def split: option.splits)
  have "keeps N s2 s'"
    by (rule assign_clones_keeps[OF assms(1) _ l]) (simp_all add: s2_def N_def)
  moreover have "keeps N s s2"
    by (simp add: keeps_def s2_def N_def nth_append)
  ultimately show ?thesis
    unfolding N_def by (blast intro: keeps_trans keeps_ext)
qed

lemma merge_objects_eq:
  "merge_objects rec obj1 obj2 s =
     (let s4 = merge_objects_start obj1 obj2 s
      in case merge_keys rec obj1 obj2 (Ref (length (heap s))) (object_keys (heap s4) obj2) s4 of
           None \<Rightarrow> None
         | Some s5 \<Rightarrow> Some (Ref (length (heap s)), s5))"
  by (simp add: merge_objects_def merge_objects_start_def new_object_def Let_def)

lemma merge_objects_start_keeps:
  "keeps (length (heap s)) s (merge_objects_start obj1 obj2 s)"
proof -
  define N where "N = length (heap s)"
  define s1 where "s1 = s\<lparr>heap := heap s @ [Plain []]\<rparr>"
  define ks where "ks = object_keys (heap s1) obj1"
  have k1: "keeps N s s1"
    by (simp add: keeps_def s1_def N_def nth_append)
  have k2: "keeps N s1 (copy_keys obj1 (Ref N) ks s1)"
    by (rule copy_keys_keeps) simp
  have k3: "keeps N (setPair obj1 obj2 (Ref N) (copy_keys obj1 (Ref N) ks s1))
      (fix_self obj1 (Ref N) ks (setPair obj1 obj2 (Ref N) (copy_keys obj1 (Ref N) ks s1)))"
    by (rule fix_self_keeps) simp
  have "keeps N s (fix_self obj1 (Ref N) ks (setPair obj1 obj2 (Ref N) (copy_keys obj1 (Ref N) ks s1)))"
    using k1 k2 k3 by (auto simp: keeps_def)
  then show ?thesis
    by (simp add: merge_objects_start_def Let_def N_def s1_def ks_def)
qed

lemma merge_objects_ext:
  assumes "ext_merger rec" and "merge_objects rec obj1 obj2 s = Some (v, s')"
  shows "ext s s'"
proof -
  define N where "N = length (heap s)"
  define s4 where "s4 = merge_objects_start obj1 obj2 s"
  from assms(2) have l: "merge_keys rec obj1 obj2 (Ref N) (object_keys (heap s4) obj2) s4 = Some s'"
    by (auto simp: merge_objects_eq s4_def N_def Let_def split: option.splits)
  have k0: "keeps N s s4"
    unfolding N_def s4_def by (rule merge_objects_start_keeps)
  then have "N \<le> length (heap s4)"
    by (simp add: keeps_def N_def)
  then have "keeps N s4 s'"
    by (rule merge_keys_keeps[OF assms(1) _ l, rotated]) simp
  with k0 show ?thesis
    unfolding N_def by (blast intro: keeps_trans keeps_ext)
qed

lemma ext_refl [simp]: "ext s s"
  by (simp add: ext_def)

lemma internalDeepMerge_ext: "ext_merger (internalDeepMerge n mergeArr)"
proof (induction n)
  case 0
  show ?case by (simp add: ext_merger_def)
next
  case (Suc n)
  show ?case
    unfolding ext_merger_def
  proof (intro allI impI)
    fix a b s v s'
    assume r: "internalDeepMerge (Suc n) mergeArr a b s = Some (v, s')"
    then show "ext s s'"
      by (auto simp: internalDeepMerge_body_def split: if_splits option.splits
          dest: clone_array_ext[OF Suc] clone_object_ext[OF Suc] replace_by_array_ext[OF Suc]
            merge_arrays_ext[OF Suc] replace_by_object_ext[OF Suc] merge_objects_ext[OF Suc])
  qed
qed

lemma internalDeepMerge_keeps:
  "internalDeepMerge n mergeArr a b s = Some (v, s') \<Longrightarrow> ext s s'"
  using internalDeepMerge_ext by (auto simp: ext_merger_def)

lemma deepMerge_ext:
  assumes "deepMerge n h target source options = Some (v, s')"
  shows "ext (init_state h) s'"
proof (cases "\<not> isObject target \<and> \<not> isObject source")
  case True
  with assms have "s' = snd (new_object (Plain []) (init_state h))"
    by (auto simp: deepMerge_def Let_def)
  then show ?thesis
    using keeps_new_object[of "length (heap (init_state h))" "init_state h" "Plain []"]
    by (simp add: ext_def)
next
  case False
  with assms show ?thesis
    by (auto simp: deepMerge_def Let_def split: if_splits dest: internalDeepMerge_keeps)
qed

section \<open>More recursion depth never changes a result\<close>

















text \<open>
  C5. A call of \<^verbatim>\<open>deepMerge\<close> that returns leaves every object of the store it was given
  as it was: the store it ends with has the given store as a prefix, so no node of target
  or source was written to, whatever the two roots are.
\<close>

theorem deepMerge_leaves_inputs_unchanged:
  assumes "deepMerge n h target source options = Some (v, s')"
  shows "length h \<le> length (heap s') \<and> take (length h) (heap s') = h"
proof -
  from deepMerge_ext[OF assms] have k: "keeps (length h) (init_state h) s'"
    by (simp add: ext_def init_state_def)
  then have len: "length h \<le> length (heap s')"
    by (simp add: keeps_def init_state_def)
  moreover have "take (length h) (heap s') = h"
    using k len by (intro nth_equalityI) (simp_all add: keeps_def init_state_def)
  ultimately show ?thesis by simp
qed

theorem deepMerge_leaves_inputs_unchanged_witness:
  "\<exists>v s'. deepMerge 3 test_no_mutation (Ref 0) (Ref 3) default_options = Some (v, s')
     \<and> length test_no_mutation \<le> length (heap s')
     \<and> take (length test_no_mutation) (heap s') = test_no_mutation"
proof -
  have "deepMerge 3 test_no_mutation (Ref 0) (Ref 3) default_options \<noteq> None"
    by code_simp
  then obtain v s' where
    r: "deepMerge 3 test_no_mutation (Ref 0) (Ref 3) default_options = Some (v, s')"
    by auto
  from deepMerge_leaves_inputs_unchanged[OF r] r show ?thesis
    by blast
qed

section \<open>Well-formed stores\<close>

section \<open>Termination\<close>

lemma valid_val_simps [simp]:
  "valid_val h Undefined" "valid_val h Null" "valid_val h (Num i)" "valid_val h (Str t)"
  "valid_val h (Bool c)" "valid_val h (Fn f)" "valid_val h (Ref a) \<longleftrightarrow> a < length h"
  by (simp_all add: valid_val_def)








lemma unseen_array_push [simp]: "unseen h0 (array_push a v s) = unseen h0 s"
  by (simp add: unseen_def unseen_clones_def unseen_pairs_def getPair_def)

lemma unseen_set_prop [simp]: "unseen h0 (set_prop a k v s) = unseen h0 s"
  by (simp add: unseen_def unseen_clones_def unseen_pairs_def getPair_def)

lemma finite_unseen_clones [simp]: "finite (unseen_clones h0 s)"
  by (simp add: unseen_clones_def)

lemma finite_unseen_pairs [simp]: "finite (unseen_pairs h0 s)"
proof (rule finite_subset)
  show "unseen_pairs h0 s \<subseteq> {..<length h0} \<times> {..<length h0}"
    by (auto simp: unseen_pairs_def)
qed simp









lemma copy_keys_tables [simp]:
  "cloneMap (copy_keys obj1 out ks s) = cloneMap s"
  "pairMap (copy_keys obj1 out ks s) = pairMap s"
  by (induction ks arbitrary: s) simp_all

lemma fix_self_tables [simp]:
  "cloneMap (fix_self obj1 out ks s) = cloneMap s"
  "pairMap (fix_self obj1 out ks s) = pairMap s"
  by (induction ks arbitrary: s) simp_all










lemma internalDeepMerge_body_ext:
  "ext_merger rec \<Longrightarrow> ext_merger (internalDeepMerge_body rec m)"
  unfolding ext_merger_def[of "internalDeepMerge_body rec m"]
  by (auto simp: internalDeepMerge_body_def split: if_splits option.splits
      dest: clone_array_ext clone_object_ext replace_by_array_ext
        merge_arrays_ext replace_by_object_ext merge_objects_ext)







section \<open>Property lists\<close>







lemma set_insert_key [simp]: "set (insert_key k ks) = insert k (set ks)"
  by (induction ks) (auto split: option.splits)

lemma set_add_key [simp]: "set (add_key k ks) = insert k (set ks)"
  by (auto simp: add_key_def)




section \<open>Reading after writing\<close>

lemma isPlainObject_iff:
  "isPlainObject h v \<longleftrightarrow> (\<exists>a ps. v = Ref a \<and> a < length h \<and> h ! a = Plain ps)"
  by (cases v) (auto simp: isPlainObject_def obj_at_def split: obj.splits)

lemma isArray_iff:
  "isArray h v \<longleftrightarrow> (\<exists>a xs. v = Ref a \<and> a < length h \<and> h ! a = Arr xs)"
  by (cases v) (auto simp: isArray_def obj_at_def split: obj.splits)



lemma set_prop_cases:
  "set_prop ob k v s = s \<or>
   (\<exists>p ps. ob = Ref p \<and> p < length (heap s) \<and> heap s ! p = Plain ps
      \<and> heap (set_prop ob k v s) = (heap s)[p := Plain (define_prop k v ps)])"
  by (cases ob) (auto simp: set_prop_def obj_at_def split: obj.splits)

lemma array_push_cases:
  "array_push ob v s = s \<or>
   (\<exists>p xs. ob = Ref p \<and> p < length (heap s) \<and> heap s ! p = Arr xs
      \<and> heap (array_push ob v s) = (heap s)[p := Arr (xs @ [v])])"
  by (cases ob) (auto simp: array_push_def obj_at_def split: obj.splits)

lemma set_prop_isArray [simp]: "isArray (heap (set_prop ob k v s)) x = isArray (heap s) x"
  using set_prop_cases[of ob k v s]
  by (auto simp: isArray_iff nth_list_update split: if_splits)

lemma set_prop_isPlainObject [simp]:
  "isPlainObject (heap (set_prop ob k v s)) x = isPlainObject (heap s) x"
  using set_prop_cases[of ob k v s]
  by (auto simp: isPlainObject_iff nth_list_update split: if_splits)

lemma array_push_isArray [simp]: "isArray (heap (array_push ob v s)) x = isArray (heap s) x"
  using array_push_cases[of ob v s]
  by (auto simp: isArray_iff nth_list_update split: if_splits)

lemma array_push_isPlainObject [simp]:
  "isPlainObject (heap (array_push ob v s)) x = isPlainObject (heap s) x"
  using array_push_cases[of ob v s]
  by (auto simp: isPlainObject_iff nth_list_update split: if_splits)


lemma keeps_obj_at:
  "keeps N s s' \<Longrightarrow> x = Ref q \<Longrightarrow> q < N \<Longrightarrow> q < length (heap s)
    \<Longrightarrow> obj_at (heap s') x = obj_at (heap s) x"
  by (auto simp: keeps_def obj_at_def)









section \<open>What the loops leave in the new object\<close>


lemma push_clones_append:
  "push_clones rec src out (is1 @ is2) s =
     (case push_clones rec src out is1 s of
        None \<Rightarrow> None
      | Some s1 \<Rightarrow> push_clones rec src out is2 s1)"
  by (induction is1 arbitrary: s) (auto split: option.splits)

lemma assign_clones_append:
  "assign_clones rec src out (ks1 @ ks2) s =
     (case assign_clones rec src out ks1 s of
        None \<Rightarrow> None
      | Some s1 \<Rightarrow> assign_clones rec src out ks2 s1)"
  by (induction ks1 arbitrary: s) (auto split: option.splits)


lemma ext_trans: "ext s s' \<Longrightarrow> ext s' s'' \<Longrightarrow> ext s s''"
  by (auto simp: ext_def keeps_def)

lemma valid_set_prop [simp]: "valid_val (heap (set_prop ob k v s)) x = valid_val (heap s) x"
  by (cases x) simp_all

lemma valid_array_push [simp]: "valid_val (heap (array_push ob v s)) x = valid_val (heap s) x"
  by (cases x) simp_all





section \<open>The first loops of the merge of two plain objects\<close>






lemma obj_at_append_new: "obj_at (h @ [ob]) (Ref (length h)) = Some ob"
  by simp


section \<open>What the tables hold\<close>

lemma tables_ok_init [simp]: "tables_ok (init_state h)"
  by (simp add: tables_ok_def init_state_def getPair_def)







lemma tables_ok_set_prop [simp]: "tables_ok (set_prop ob k v s) = tables_ok s"
  by (simp add: tables_ok_def getPair_def)

lemma tables_ok_array_push [simp]: "tables_ok (array_push ob v s) = tables_ok s"
  by (simp add: tables_ok_def getPair_def)















section \<open>A source value that is not an array or a plain object is returned as it is\<close>




section \<open>The merge of two plain objects at the root\<close>











section \<open>Values of the source that are not arrays or plain objects\<close>

lemma set_fold_add_key [simp]: "set (fold add_key ks acc) = set ks \<union> set acc"
  by (induction ks arbitrary: acc) auto



section \<open>Values of the source that are not arrays or plain objects, at the root\<close>






section \<open>Cycles\<close>





section \<open>The merge of two plain objects, key by key\<close>




section \<open>The order of the keys of the result\<close>






section \<open>Arrays\<close>






lemma isArray_not_isPlainObject: "isArray h x \<Longrightarrow> \<not> isPlainObject h x"
  by (auto simp: isPlainObject_iff isArray_iff)















section \<open>Clones are copies\<close>

lemma grows_refl [simp]: "grows s s"
  by (simp add: grows_def)


lemma grows_array_push [simp]: "grows s (array_push ob v s)"
  by (simp add: grows_def)

lemma grows_set_prop [simp]: "grows s (set_prop ob k v s)"
  by (simp add: grows_def)







lemma clone_inv_weaken: "clone_inv h0 P s \<Longrightarrow> P \<subseteq> P' \<Longrightarrow> clone_inv h0 P' s"
  unfolding clone_inv_def by blast


































lemma copy_keys_length [simp]: "length (heap (copy_keys obj1 out ks s)) = length (heap s)"
  by (induction ks arbitrary: s) simp_all

lemma fix_self_length [simp]: "length (heap (fix_self obj1 out ks s)) = length (heap s)"
  by (induction ks arbitrary: s) simp_all








section \<open>A clone reads like its original\<close>











end
